theory Spec2Isabelle
  imports Complex_Main "HOL-Library.Word"
begin

section \<open>Audio processing pipeline (audio\_processor.py)\<close>

text \<open>
  The script is sequential glue around four libraries: pydub decodes and re-encodes,
  librosa resamples, numpy holds the sample arrays and matplotlib renders the waveform.
  The embedding follows the script's functions statement by statement (the export call of
  the writer, the console output and the notebook display are left out) and takes what
  the libraries and the filesystem answer as fields of an environment record, so that
  each theorem holds for whatever they answer. Paths are POSIX paths.

  A float is modelled by the rational number it denotes. Where the script computes with
  floats, the rounding of the binary32 or binary64 operation is written out
  (\<open>float_round\<close>), and an operation whose result is too large for the format gives
  infinity, modelled as \<open>None\<close>.
\<close>

subsection \<open>Data model\<close>

text \<open>
  A decoded pydub \<open>AudioSegment\<close>: the attributes the script reads.
  \<open>array_of_samples\<close> is what \<open>get_array_of_samples()\<close> returns: the integer samples
  of all channels, interleaved frame by frame.
\<close>

record audio_segment =
  channels :: nat
  frame_rate :: int
  sample_width :: nat
  array_of_samples :: "int list"

text \<open>The exceptions the script raises itself or lets through from numpy and Python.\<close>

datatype py_error =
    FileNotFoundError string
  | ValueError string
  | ZeroDivisionError string
  | OverflowError string

text \<open>
  The world outside the script.
  \<^item> \<open>path_exists\<close> is \<open>os.path.exists\<close>.
  \<^item> \<open>from_file\<close> is \<open>AudioSegment.from_file\<close>: \<open>Inl msg\<close> when the decoder raises
    an exception \<open>e\<close> (an instance of Python's \<open>Exception\<close>) with \<open>str(e) = msg\<close>,
    \<open>Inr a\<close> when it returns the segment \<open>a\<close>.
  \<^item> \<open>tomono\<close> is the stereo-to-mono downmix that pydub's \<open>set_channels(1)\<close> applies
    to the sample data of a two-channel segment.
  \<^item> \<open>lib_resample\<close> is \<open>librosa.resample(samples, orig_sr=_, target_sr=_)\<close>.
\<close>

record env =
  path_exists :: "string \<Rightarrow> bool"
  from_file :: "string \<Rightarrow> string + audio_segment"
  tomono :: "int list \<Rightarrow> int list"
  lib_resample :: "rat list \<Rightarrow> int \<Rightarrow> int \<Rightarrow> rat list"

subsection \<open>Python numbers and slices\<close>

text \<open>
  \<open>xs[start:stop]\<close> on a sequence: a negative index counts from the end, every index is
  clamped to \<open>0 .. len(xs)\<close>, and the slice is empty when \<open>stop\<close> does not exceed
  \<open>start\<close>. A slice never raises.
\<close>

definition py_slice :: "'a list \<Rightarrow> int \<Rightarrow> int \<Rightarrow> 'a list" where
  "py_slice xs start stop =
     (let n = int (length xs);
          lo = (if start < 0 then max (start + n) 0 else min start n);
          hi = (if stop < 0 then max (stop + n) 0 else min stop n)
      in take (nat (hi - lo)) (drop (nat lo) xs))"

text \<open>\<open>int(x)\<close> on a float, and the integer part kept by \<open>astype\<close>: truncation towards zero.\<close>

definition py_int :: "rat \<Rightarrow> int" where
  "py_int x = (if 0 \<le> x then \<lfloor>x\<rfloor> else \<lceil>x\<rceil>)"

text \<open>
  IEEE 754 rounding to nearest, ties to even. \<open>bit_length n\<close> is the number of binary
  digits of a positive integer, \<open>float_exponent x\<close> the exponent \<open>e\<close> with
  \<open>2 ^ e \<le> x < 2 ^ (e + 1)\<close> for positive \<open>x\<close>. A format with \<open>p\<close> significant bits and
  least exponent \<open>emin\<close> holds the multiples of \<open>float_ulp p emin x\<close> near \<open>x\<close>
  (subnormal numbers share the unit of \<open>emin\<close>); \<open>float_round\<close> picks the nearest one.
  The result overflows to infinity when it needs an exponent above \<open>emax\<close>.
\<close>

function bit_length :: "int \<Rightarrow> int" where
  "bit_length n = (if n \<le> 0 then 0 else 1 + bit_length (n div 2))"
  by pat_completeness auto
termination
  by (relation "measure nat") auto

declare bit_length.simps [simp del]

definition float_exponent :: "rat \<Rightarrow> int" where
  "float_exponent x =
     (if 1 \<le> x then bit_length \<lfloor>x\<rfloor> - 1 else - bit_length (\<lceil>1 / x\<rceil> - 1))"

definition round_half_even :: "rat \<Rightarrow> int" where
  "round_half_even x =
     (let f = \<lfloor>x\<rfloor>; r = x - of_int f
      in if r < 1 / 2 then f else if 1 / 2 < r then f + 1 else if even f then f else f + 1)"

definition float_ulp :: "nat \<Rightarrow> int \<Rightarrow> rat \<Rightarrow> rat" where
  "float_ulp p emin x = 2 powi (max (float_exponent \<bar>x\<bar>) emin - int p + 1)"

definition float_round :: "nat \<Rightarrow> int \<Rightarrow> rat \<Rightarrow> rat" where
  "float_round p emin x =
     (if x = 0 then 0
      else sgn x * rat_of_int (round_half_even (\<bar>x\<bar> / float_ulp p emin x)) * float_ulp p emin x)"

definition float_overflow :: "nat \<Rightarrow> int \<Rightarrow> int \<Rightarrow> rat \<Rightarrow> bool" where
  "float_overflow p emin emax x \<longleftrightarrow>
     x \<noteq> 0 \<and>
     (let e = max (float_exponent \<bar>x\<bar>) emin
      in emax < e \<or> (e = emax \<and> 2 ^ p \<le> round_half_even (\<bar>x\<bar> / float_ulp p emin x)))"

text \<open>
  binary64, Python's \<open>float\<close>: 53 significant bits, exponents \<open>-1022 .. 1023\<close>.
  \<open>fl64 x\<close> is the float an operation with exact result \<open>x\<close> returns, \<open>None\<close> for
  infinity. binary32, numpy's \<open>float32\<close>: 24 significant bits, least exponent \<open>-126\<close>.
\<close>

definition fl64 :: "rat \<Rightarrow> rat option" where
  "fl64 x = (if float_overflow 53 (- 1022) 1023 x then None else Some (float_round 53 (- 1022) x))"

definition fl32 :: "rat \<Rightarrow> rat" where
  "fl32 x = float_round 24 (- 126) x"

subsection \<open>Loader\<close>

text \<open>\<open>audio.set_channels(1)\<close> on a two-channel segment, the only call the script makes.\<close>

definition set_channels_1 :: "env \<Rightarrow> audio_segment \<Rightarrow> audio_segment" where
  "set_channels_1 E audio =
     audio\<lparr>channels := 1, array_of_samples := tomono E (array_of_samples audio)\<rparr>"

text \<open>
  \<open>np.array(audio.get_array_of_samples(), dtype=np.float32) / (2**15)\<close>: each integer
  sample is rounded to \<open>float32\<close> (the samples of an \<open>array.array\<close> have at most 32 bits,
  far below the largest \<open>float32\<close>), and the division by a power of two is exact.
\<close>

definition normalize_samples :: "int list \<Rightarrow> rat list" where
  "normalize_samples xs = map (\<lambda>s. fl32 (rat_of_int s) / 2 ^ 15) xs"

text \<open>
  \<open>load_audio\<close> returns the list of paths it handed to the decoder (empty when no decode
  was attempted) together with its outcome: the exception raised, or the triple of
  samples, sample rate and segment.
\<close>

definition load_audio ::
  "env \<Rightarrow> string \<Rightarrow> string list \<times> (py_error + rat list \<times> int \<times> audio_segment)" where
  "load_audio E file_path =
     (if \<not> path_exists E file_path
      then ([], Inl (FileNotFoundError (''Audio file not found: '' @ file_path)))
      else
        ([file_path],
         (case from_file E file_path of
            Inl msg \<Rightarrow> Inl (ValueError (''Failed to load audio file: '' @ msg))
          | Inr audio0 \<Rightarrow>
              (let audio = (if channels audio0 = 2 then set_channels_1 E audio0 else audio0);
                   samples = normalize_samples (array_of_samples audio);
                   sample_rate = frame_rate audio
               in Inr (samples, sample_rate, audio)))))"

subsection \<open>Resampler\<close>

definition resample_audio :: "env \<Rightarrow> rat list \<Rightarrow> int \<Rightarrow> int \<Rightarrow> rat list \<times> int" where
  "resample_audio E samples orig_sr target_sr =
     (if orig_sr \<noteq> target_sr
      then (lib_resample E samples orig_sr target_sr, target_sr)
      else (samples, orig_sr))"

text \<open>
  \<open>process_audio\<close>: load, then resample; an exception of the loader propagates.
\<close>

definition process_audio ::
  "env \<Rightarrow> string \<Rightarrow> int \<Rightarrow> py_error + rat list \<times> int \<times> audio_segment" where
  "process_audio E file_path target_sr =
     (case snd (load_audio E file_path) of
        Inl e \<Rightarrow> Inl e
      | Inr (samples, sample_rate, original_audio) \<Rightarrow>
          (let (samples', sample_rate') = resample_audio E samples sample_rate target_sr
           in Inr (samples', sample_rate', original_audio)))"

subsection \<open>Writer: de-normalization\<close>

text \<open>
  \<open>.astype(np.int16)\<close> on a float: the fraction is dropped, the integer is converted to
  32 bits and its low 16 bits are stored (two's complement wrap-around). When the integer
  does not fit in 32 bits, the conversion on x86-64 yields \<open>- 2 ^ 31\<close>, whose low 16 bits
  are \<open>0\<close>.
\<close>

definition astype_int16 :: "rat \<Rightarrow> 16 word" where
  "astype_int16 x =
     (let k = py_int x
      in if - (2 ^ 31) \<le> k \<and> k < 2 ^ 31 then word_of_int k else 0)"

text \<open>
  \<open>samples_int16 = (samples * (2**15)).astype(np.int16)\<close>, the first statement of
  \<open>save_audio\<close>. Multiplying a float by \<open>2 ^ 15\<close> is exact; a product too large for the
  format is infinity, which \<open>astype\<close> stores like any other value that does not fit.
\<close>

definition samples_int16 :: "rat list \<Rightarrow> 16 word list" where
  "samples_int16 samples = map (\<lambda>s. astype_int16 (s * 2 ^ 15)) samples"

subsection \<open>Visualizer\<close>

text \<open>
  What the animation consists of: the limits of the time axis and the data each frame's
  \<open>update\<close> gave to the line. The time axis \<open>np.linspace(0, len(samples) / sample_rate,
  len(samples))\<close> is an array of \<open>len(samples)\<close> floats; its entries are named by their
  indices \<open>0, ..., len(samples) - 1\<close>, so a frame's time slice is the list of the indices
  it shows. The amplitude limits and the frame rate are floats handed to matplotlib and
  are not recorded; the computations of them that can raise are kept.
\<close>

record waveform_gif =
  xlim :: "rat \<times> rat"
  frames_data :: "(nat list \<times> rat list) list"

text \<open>\<open>frame_duration = duration / frames\<close> with \<open>frames = 100\<close>, a binary64 division.\<close>

definition frame_duration :: "rat \<Rightarrow> rat" where
  "frame_duration duration = float_round 53 (- 1022) (duration / 100)"

text \<open>
  \<open>samples_per_frame = int(sample_rate * frame_duration)\<close>: the integer is converted to
  a float (\<open>OverflowError\<close> when it is too large), the product is rounded, and \<open>int\<close>
  truncates it (\<open>OverflowError\<close> when the product is infinity).
\<close>

definition samples_per_frame :: "int \<Rightarrow> rat \<Rightarrow> py_error + int" where
  "samples_per_frame sample_rate duration =
     (case fl64 (rat_of_int sample_rate) of
        None \<Rightarrow> Inl (OverflowError ''int too large to convert to float'')
      | Some r \<Rightarrow>
          (case fl64 (r * frame_duration duration) of
             None \<Rightarrow> Inl (OverflowError ''cannot convert float infinity to integer'')
           | Some x \<Rightarrow> Inr (py_int x)))"

text \<open>The nested function \<open>update(frame)\<close>, with the variables it closes over as arguments.\<close>

definition update :: "'a list \<Rightarrow> rat list \<Rightarrow> int \<Rightarrow> int \<Rightarrow> 'a list \<times> rat list" where
  "update time samples spf frame =
     (let start_idx = frame * spf;
          end_idx = min ((frame + 1) * spf) (int (length samples))
      in (py_slice time start_idx end_idx, py_slice samples start_idx end_idx))"

text \<open>
  \<open>generate_waveform_gif\<close>, statement by statement: \<open>len(samples) / sample_rate\<close> raises
  \<open>ZeroDivisionError\<close> when the rate is zero; \<open>np.min(samples)\<close> raises \<open>ValueError\<close> on
  an empty array; \<open>int(sample_rate * frame_duration)\<close> can raise \<open>OverflowError\<close>;
  \<open>1 / frame_duration\<close> raises \<open>ZeroDivisionError\<close> when the frame duration is zero;
  otherwise the animation calls \<open>update\<close> for the frames \<open>0, ..., 99\<close>.
\<close>

definition generate_waveform_gif :: "rat list \<Rightarrow> int \<Rightarrow> rat \<Rightarrow> py_error + waveform_gif" where
  "generate_waveform_gif samples sample_rate duration =
     (if sample_rate = 0 then Inl (ZeroDivisionError ''division by zero'')
      else
        (let time = [0 ..< length samples]
         in case samples of
              [] \<Rightarrow> Inl (ValueError
                     ''zero-size array to reduction operation minimum which has no identity'')
            | x # xs \<Rightarrow>
                (let frames = 100
                 in case samples_per_frame sample_rate duration of
                      Inl e \<Rightarrow> Inl e
                    | Inr spf \<Rightarrow>
                        if frame_duration duration = 0
                        then Inl (ZeroDivisionError ''float division by zero'')
                        else Inr \<lparr>xlim = (0, duration),
                                  frames_data =
                                    map (\<lambda>frame. update time samples spf (int frame))
                                      [0 ..< frames]\<rparr>)))"

subsection \<open>Output file names\<close>

text \<open>\<open>p.rfind(c)\<close> for a single character: the highest index of \<open>c\<close> in \<open>p\<close>, or \<open>-1\<close>.\<close>

fun rfind :: "string \<Rightarrow> char \<Rightarrow> int" where
  "rfind [] c = - 1"
| "rfind (x # xs) c =
     (let r = rfind xs c in if 0 \<le> r then r + 1 else if x = c then 0 else - 1)"

text \<open>\<open>os.path.basename\<close> (posixpath): \<open>i = p.rfind('/') + 1; return p[i:]\<close>.\<close>

definition basename :: "string \<Rightarrow> string" where
  "basename p = (let i = rfind p CHR ''/'' + 1 in drop (nat i) p)"

text \<open>
  \<open>os.path.splitext\<close> (posixpath, through \<open>genericpath._splitext\<close>). The loop skips the
  leading dots of the last component; \<open>splitext_scan\<close> is that loop and says whether it
  reached a character other than a dot before \<open>dotIndex\<close>, which is where the source
  returns \<open>(p[:dotIndex], p[dotIndex:])\<close>.
\<close>

function splitext_scan :: "string \<Rightarrow> int \<Rightarrow> int \<Rightarrow> bool" where
  "splitext_scan p filenameIndex dotIndex =
     (if filenameIndex < dotIndex
      then (if py_slice p filenameIndex (filenameIndex + 1) \<noteq> ''.'' then True
            else splitext_scan p (filenameIndex + 1) dotIndex)
      else False)"
  by pat_completeness auto
termination
  by (relation "measure (\<lambda>(p, f, d). nat (d - f))") auto

declare splitext_scan.simps [simp del]

definition splitext :: "string \<Rightarrow> string \<times> string" where
  "splitext p =
     (let sepIndex = rfind p CHR ''/'';
          dotIndex = rfind p CHR ''.''
      in if dotIndex > sepIndex \<and> splitext_scan p (sepIndex + 1) dotIndex
         then (take (nat dotIndex) p, drop (nat dotIndex) p)
         else (p, []))"

definition get_output_filenames :: "string \<Rightarrow> string \<times> string" where
  "get_output_filenames input_path =
     (let filename = fst (splitext (basename input_path));
          audio_output = ''sample_data/v2_'' @ filename @ snd (splitext input_path);
          gif_output = ''sample_data/v2_'' @ filename @ ''.gif''
      in (audio_output, gif_output))"

subsection \<open>Example environments\<close>

text \<open>Averaging downmix of interleaved stereo samples, rounding down.\<close>

fun avg_tomono :: "int list \<Rightarrow> int list" where
  "avg_tomono (l # r # xs) = (l + r) div 2 # avg_tomono xs"
| "avg_tomono xs = []"

text \<open>
  A filesystem with three files: a stereo recording, a three-channel recording and a file
  the decoder rejects. The resampler of this environment is not exercised.
\<close>

definition stereo_segment :: audio_segment where
  "stereo_segment =
     \<lparr>channels = 2, frame_rate = 44100, sample_width = 2,
      array_of_samples = [16384, 16384, -32768, 0]\<rparr>"

definition surround_segment :: audio_segment where
  "surround_segment =
     \<lparr>channels = 3, frame_rate = 48000, sample_width = 2,
      array_of_samples = [100, 200, 300, 400, 500, 600]\<rparr>"

definition example_env :: env where
  "example_env =
     \<lparr>path_exists = (\<lambda>p. p \<in> {''a.wav'', ''s.wav'', ''bad.mov''}),
      from_file = (\<lambda>p. if p = ''a.wav'' then Inr stereo_segment
                        else if p = ''s.wav'' then Inr surround_segment
                        else Inl ''Decoding failed. ffmpeg returned error code: 1''),
      tomono = avg_tomono,
      lib_resample = (\<lambda>samples orig_sr target_sr. samples)\<rparr>"

section \<open>Theorems\<close>

subsection \<open>Floating-point rounding\<close>

lemma bit_length_nonneg: "0 \<le> bit_length n"
  by (induction n rule: bit_length.induct) (subst bit_length.simps, simp)

lemma bit_length_pos: "0 < n \<Longrightarrow> 0 < bit_length n"
  using bit_length_nonneg [of "n div 2"] by (subst bit_length.simps) simp

lemma bit_length_bounds:
  "0 < n \<Longrightarrow> 2 ^ nat (bit_length n - 1) \<le> n \<and> n < 2 ^ nat (bit_length n)"
proof (induction n rule: bit_length.induct)
  case (1 n)
  have bl: "bit_length n = 1 + bit_length (n div 2)"
    using "1.prems" by (subst bit_length.simps) simp
  show ?case
  proof (cases "n div 2 = 0")
    case True
    then have "n = 1" using "1.prems" by presburger
    moreover have "bit_length (1 div 2) = 0"
      by (subst bit_length.simps) simp
    ultimately show ?thesis using bl by simp
  next
    case False
    then have pos: "0 < n div 2" using "1.prems" by presburger
    from "1.IH" [OF _ pos] "1.prems"
    have ih: "2 ^ nat (bit_length (n div 2) - 1) \<le> n div 2" "n div 2 < 2 ^ nat (bit_length (n div 2))"
      by simp_all
    have bp: "0 < bit_length (n div 2)"
      by (rule bit_length_pos [OF pos])
    have e1: "nat (bit_length n - 1) = Suc (nat (bit_length (n div 2) - 1))"
      using bp by (simp add: bl)
    have e2: "nat (bit_length n) = Suc (nat (bit_length (n div 2)))"
      using bp by (simp add: bl)
    have "2 * (n div 2) \<le> n" "n \<le> 2 * (n div 2) + 1"
      by presburger+
    with ih show ?thesis
      unfolding e1 e2 by simp
  qed
qed

lemma bit_length_powi:
  assumes "0 < n"
  shows "2 powi (bit_length n - 1) \<le> rat_of_int n" and "rat_of_int n < 2 powi (bit_length n)"
proof -
  from bit_length_bounds [OF assms]
  have a: "2 ^ nat (bit_length n - 1) \<le> n" and b: "n < 2 ^ nat (bit_length n)"
    by simp_all
  have bp: "0 < bit_length n"
    by (rule bit_length_pos [OF assms])
  from a have "rat_of_int (2 ^ nat (bit_length n - 1)) \<le> rat_of_int n"
    by (simp only: of_int_le_iff)
  then show "2 powi (bit_length n - 1) \<le> rat_of_int n"
    using bp by (simp add: power_int_def)
  from b have "rat_of_int n < rat_of_int (2 ^ nat (bit_length n))"
    by (simp only: of_int_less_iff)
  then show "rat_of_int n < 2 powi (bit_length n)"
    using bp by (simp add: power_int_def)
qed

lemma float_exponent_bounds:
  assumes "0 < x"
  shows "2 powi (float_exponent x) \<le> x" and "x < 2 powi (float_exponent x + 1)"
proof -
  have "2 powi (float_exponent x) \<le> x \<and> x < 2 powi (float_exponent x + 1)"
  proof (cases "1 \<le> x")
    case True
    then have fp: "0 < \<lfloor>x\<rfloor>" by simp
    have fe: "float_exponent x = bit_length \<lfloor>x\<rfloor> - 1"
      using True by (simp add: float_exponent_def)
    have "2 powi (bit_length \<lfloor>x\<rfloor> - 1) \<le> rat_of_int \<lfloor>x\<rfloor>"
      by (rule bit_length_powi(1) [OF fp])
    then have lo: "2 powi (bit_length \<lfloor>x\<rfloor> - 1) \<le> x"
      using of_int_floor_le [of x] by linarith
    have "\<lfloor>x\<rfloor> + 1 \<le> 2 ^ nat (bit_length \<lfloor>x\<rfloor>)"
      using bit_length_bounds [OF fp] by simp
    then have "rat_of_int (\<lfloor>x\<rfloor> + 1) \<le> rat_of_int (2 ^ nat (bit_length \<lfloor>x\<rfloor>))"
      by (simp only: of_int_le_iff)
    then have "rat_of_int \<lfloor>x\<rfloor> + 1 \<le> 2 powi (bit_length \<lfloor>x\<rfloor>)"
      using bit_length_pos [OF fp] by (simp add: power_int_def)
    then have hi: "x < 2 powi (bit_length \<lfloor>x\<rfloor>)"
      using floor_correct [of x] by linarith
    from lo hi show ?thesis by (simp add: fe)
  next
    case False
    define m where "m = \<lceil>1 / x\<rceil>"
    define k where "k = bit_length (m - 1)"
    have x1: "x < 1" using False by simp
    then have "1 < 1 / x" using assms by simp
    then have m2: "2 \<le> m" unfolding m_def by linarith
    then have mp: "0 < m - 1" by simp
    have kp: "0 < k" unfolding k_def by (rule bit_length_pos [OF mp])
    have fe: "float_exponent x = - k"
      using False by (simp add: float_exponent_def k_def m_def)
    from bit_length_bounds [OF mp]
    have a: "2 ^ nat (k - 1) \<le> m - 1" and b: "m - 1 < 2 ^ nat k"
      by (simp_all add: k_def)
    from b have "m \<le> 2 ^ nat k" by simp
    then have "rat_of_int m \<le> rat_of_int (2 ^ nat k)" by (simp only: of_int_le_iff)
    then have "rat_of_int m \<le> 2 ^ nat k" by simp
    moreover have "1 / x \<le> rat_of_int m"
      unfolding m_def by (rule le_of_int_ceiling)
    ultimately have "1 / x \<le> 2 ^ nat k"
      by (rule order_trans [rotated])
    then have "1 \<le> 2 ^ nat k * x"
      using assms by (simp add: field_simps)
    then have lo: "2 powi (- k) \<le> x"
      using kp by (simp add: power_int_def field_simps)
    from a have "rat_of_int (2 ^ nat (k - 1)) \<le> rat_of_int (m - 1)" by (simp only: of_int_le_iff)
    then have "2 ^ nat (k - 1) \<le> rat_of_int m - 1" by simp
    moreover have "rat_of_int m - 1 < 1 / x"
      unfolding m_def using ceiling_correct [of "1 / x"] by linarith
    ultimately have "2 ^ nat (k - 1) < 1 / x" by (rule le_less_trans)
    then have "2 ^ nat (k - 1) * x < 1"
      using assms by (simp add: field_simps)
    then have hi: "x < 2 powi (- k + 1)"
      using kp x1 by (simp add: power_int_def field_simps)
    from lo hi show ?thesis by (simp add: fe)
  qed
  then show "2 powi (float_exponent x) \<le> x" and "x < 2 powi (float_exponent x + 1)"
    by simp_all
qed


lemma round_half_even_nonneg: "0 \<le> x \<Longrightarrow> 0 \<le> round_half_even x"
  by (auto simp: round_half_even_def Let_def)

lemma round_half_even_le: "x \<le> rat_of_int k \<Longrightarrow> round_half_even x \<le> k"
proof -
  assume a: "x \<le> rat_of_int k"
  have f: "\<lfloor>x\<rfloor> \<le> k" using a by (simp add: floor_le_iff)
  show ?thesis
  proof (cases "\<lfloor>x\<rfloor> = k")
    case True
    then have "x - rat_of_int \<lfloor>x\<rfloor> \<le> 0" using a by simp
    then show ?thesis using True by (simp add: round_half_even_def Let_def)
  next
    case False
    with f have "\<lfloor>x\<rfloor> + 1 \<le> k" by simp
    then show ?thesis by (simp add: round_half_even_def Let_def)
  qed
qed

lemma round_half_even_less: "x < rat_of_int k - 1 / 2 \<Longrightarrow> round_half_even x < k"
proof -
  assume a: "x < rat_of_int k - 1 / 2"
  have "rat_of_int \<lfloor>x\<rfloor> \<le> x" by simp
  with a have "rat_of_int \<lfloor>x\<rfloor> < rat_of_int k" by linarith
  then have f: "\<lfloor>x\<rfloor> < k" by (simp only: of_int_less_iff)
  show ?thesis
  proof (cases "\<lfloor>x\<rfloor> + 1 = k")
    case True
    then have "rat_of_int k = rat_of_int \<lfloor>x\<rfloor> + 1" by (simp flip: True)
    with a have "x - rat_of_int \<lfloor>x\<rfloor> < 1 / 2" by linarith
    then show ?thesis using f by (simp add: round_half_even_def Let_def)
  next
    case False
    with f have "\<lfloor>x\<rfloor> + 1 < k" by simp
    then show ?thesis by (simp add: round_half_even_def Let_def)
  qed
qed

lemma round_half_even_of_int: "round_half_even (rat_of_int k) = k"
  by (simp add: round_half_even_def)

lemma py_int_nonneg: "0 \<le> x \<Longrightarrow> 0 \<le> py_int x"
  by (simp add: py_int_def)

lemma float_ulp_pos: "0 < float_ulp p emin x"
  by (simp add: float_ulp_def zero_less_power_int)

lemma float_round_nonneg: "0 \<le> x \<Longrightarrow> 0 \<le> float_round p emin x"
proof (cases "x = 0")
  case True
  then show ?thesis by (simp add: float_round_def)
next
  case False
  assume "0 \<le> x"
  with False have xp: "0 < x" by simp
  have "0 \<le> \<bar>x\<bar> / float_ulp p emin x"
    using float_ulp_pos [of p emin x] by simp
  then have "0 \<le> round_half_even (\<bar>x\<bar> / float_ulp p emin x)"
    by (rule round_half_even_nonneg)
  then show ?thesis
    using xp float_ulp_pos [of p emin x] by (simp add: float_round_def)
qed

lemma fl64_nonneg: "fl64 x = Some y \<Longrightarrow> 0 \<le> x \<Longrightarrow> 0 \<le> y"
  by (auto simp: fl64_def float_round_nonneg split: if_splits)

lemma frame_duration_nonneg: "0 \<le> duration \<Longrightarrow> 0 \<le> frame_duration duration"
  by (simp add: frame_duration_def float_round_nonneg)

lemma samples_per_frame_nonneg:
  assumes "0 < sample_rate" and "0 \<le> duration"
    and "samples_per_frame sample_rate duration = Inr n"
  shows "0 \<le> n"
proof -
  from assms(3) obtain r x where r: "fl64 (rat_of_int sample_rate) = Some r"
    and x: "fl64 (r * frame_duration duration) = Some x" and n: "n = py_int x"
    by (auto simp: samples_per_frame_def split: option.splits)
  have "0 \<le> r" using fl64_nonneg [OF r] assms(1) by simp
  then have "0 \<le> r * frame_duration duration"
    using frame_duration_nonneg [OF assms(2)] by simp
  then have "0 \<le> x" by (rule fl64_nonneg [OF x])
  then show ?thesis unfolding n by (rule py_int_nonneg)
qed


lemma float_round_defined:
  assumes "0 < x" and "x < 2 powi (emax + 1) - 2 powi (emax - int p)" and "emin \<le> emax"
  shows "\<not> float_overflow p emin emax x" and "float_round p emin x \<le> 2 powi (emax + 1)"
proof -
  define e where "e = max (float_exponent \<bar>x\<bar>) emin"
  define u where "u = (2::rat) powi (e - int p + 1)"
  define m where "m = round_half_even (\<bar>x\<bar> / u)"
  have ax: "\<bar>x\<bar> = x" using assms(1) by simp
  have up: "0 < u" by (simp add: u_def)
  have ulp: "float_ulp p emin x = u"
    by (simp add: float_ulp_def u_def e_def)
  have "(0::rat) < 2 powi (emax - int p)" by simp
  with assms(2) have xlt: "x < 2 powi (emax + 1)" by linarith
  have fe: "float_exponent x \<le> emax"
  proof (rule ccontr)
    assume "\<not> float_exponent x \<le> emax"
    then have "emax + 1 \<le> float_exponent x" by simp
    then have "(2::rat) powi (emax + 1) \<le> 2 powi (float_exponent x)"
      by (rule power_int_increasing) simp
    with float_exponent_bounds(1) [OF assms(1)] xlt show False by linarith
  qed
  have ele: "e \<le> emax" using fe assms(3) by (simp add: e_def ax)
  have split: "(2::rat) powi (e + 1) = 2 ^ p * u"
    using power_int_add [of "2::rat" "int p" "e - int p + 1"] by (simp add: u_def)
  have "(2::rat) powi (float_exponent x + 1) \<le> 2 powi (e + 1)"
    by (rule power_int_increasing) (simp_all add: e_def ax)
  with float_exponent_bounds(2) [OF assms(1)] have "x < 2 ^ p * u"
    unfolding split by linarith
  then have q: "x / u < 2 ^ p"
    using up by (simp add: field_simps)
  then have "x / u \<le> rat_of_int (2 ^ p)" by simp
  then have mle: "m \<le> 2 ^ p"
    unfolding m_def ax by (rule round_half_even_le)
  have mlt: "m < 2 ^ p" if "e = emax"
  proof -
    have "(2::rat) powi (emax - int p) * 2 = 2 powi (emax - int p + 1)"
      using power_int_add [of "2::rat" "emax - int p" 1] by simp
    then have h: "(2::rat) powi (emax - int p) = u / 2"
      by (simp add: u_def that)
    have "x < 2 ^ p * u - u / 2"
      using assms(2) split by (simp add: that h)
    then have "x / u < 2 ^ p - 1 / 2"
      using up by (simp add: field_simps)
    then have "x / u < rat_of_int (2 ^ p) - 1 / 2" by simp
    then show ?thesis
      unfolding m_def ax by (rule round_half_even_less)
  qed
  show "float_round p emin x \<le> 2 powi (emax + 1)"
  proof -
    have fr: "float_round p emin x = rat_of_int m * u"
      using assms(1) by (simp add: float_round_def ulp m_def)
    have "rat_of_int m \<le> rat_of_int (2 ^ p)"
      using mle by (simp only: of_int_le_iff)
    then have "rat_of_int m * u \<le> 2 ^ p * u"
      using up by simp
    then have a: "float_round p emin x \<le> 2 powi (e + 1)"
      by (simp add: fr split)
    have "(2::rat) powi (e + 1) \<le> 2 powi (emax + 1)"
      using ele by (intro power_int_increasing) simp_all
    with a show ?thesis by linarith
  qed
  show "\<not> float_overflow p emin emax x"
    using ele mlt unfolding float_overflow_def Let_def ulp
    by (fold e_def, fold m_def) auto
qed

lemma fl64_defined:
  assumes "0 \<le> x" and "x < 2 powi 1024 - 2 powi 970"
  shows "\<exists>y. fl64 x = Some y \<and> 0 \<le> y \<and> y \<le> 2 powi 1024"
proof (cases "x = 0")
  case True
  then show ?thesis by (simp add: fl64_def float_overflow_def float_round_def)
next
  case False
  with assms(1) have xp: "0 < x" by simp
  have b: "x < 2 powi (1023 + 1) - 2 powi (1023 - int 53)"
    using assms(2) by simp
  have "\<not> float_overflow 53 (- 1022) 1023 x"
    by (rule float_round_defined(1) [OF xp b]) simp
  moreover have "float_round 53 (- 1022) x \<le> 2 powi (1023 + 1)"
    by (rule float_round_defined(2) [OF xp b]) simp
  ultimately show ?thesis
    using float_round_nonneg [OF assms(1), of 53 "- 1022"] by (simp add: fl64_def)
qed

lemma frame_duration_5: "frame_duration 5 = 3602879701896397 / 2 ^ 56"
  by code_simp

lemma samples_per_frame_defined:
  assumes "0 < sample_rate" and "sample_rate < 2 ^ 1024 - 2 ^ 970"
  shows "\<exists>n. samples_per_frame sample_rate 5 = Inr n"
proof -
  have "rat_of_int sample_rate < rat_of_int (2 ^ 1024 - 2 ^ 970)"
    using assms(2) by (simp only: of_int_less_iff)
  then have b: "rat_of_int sample_rate < 2 powi 1024 - 2 powi 970"
    by simp
  from fl64_defined [OF _ b] assms(1) obtain r where
    r: "fl64 (rat_of_int sample_rate) = Some r" and r0: "0 \<le> r" and r1: "r \<le> 2 powi 1024"
    by auto
  have fd: "0 \<le> frame_duration 5" "frame_duration 5 \<le> 1 / 16"
    by (simp_all add: frame_duration_5)
  have "r * frame_duration 5 \<le> 2 powi 1024 * (1 / 16)"
    using r0 r1 fd by (intro mult_mono) simp_all
  also have "\<dots> = 2 powi 1020"
    using power_int_add [of "2::rat" 1020 4] by simp
  also have "\<dots> < 2 powi 1024 - 2 powi 970"
  proof -
    have "(2::rat) powi 970 \<le> 2 powi 1020"
      by (rule power_int_increasing) simp_all
    moreover have "(2::rat) powi 1024 = 16 * 2 powi 1020"
      using power_int_add [of "2::rat" 1020 4] by simp
    moreover have "(0::rat) < 2 powi 1020" by simp
    ultimately show ?thesis by linarith
  qed
  finally have "r * frame_duration 5 < 2 powi 1024 - 2 powi 970" .
  moreover have "0 \<le> r * frame_duration 5"
    using r0 fd(1) by simp
  ultimately obtain x where "fl64 (r * frame_duration 5) = Some x"
    using fl64_defined by blast
  with r show ?thesis by (simp add: samples_per_frame_def)
qed

lemma float_round_int_exact:
  assumes "\<bar>s\<bar> < 2 ^ p" and "emin \<le> 0"
  shows "float_round p emin (rat_of_int s) = rat_of_int s"
proof (cases "s = 0")
  case True
  then show ?thesis by (simp add: float_round_def)
next
  case False
  define x where "x = \<bar>rat_of_int s\<bar>"
  have xs: "x = rat_of_int \<bar>s\<bar>" by (simp add: x_def)
  have "1 \<le> \<bar>s\<bar>" using False by simp
  then have x1: "1 \<le> x" unfolding xs by (simp only: of_int_1_le_iff)
  then have xp: "0 < x" by simp
  define fe where "fe = float_exponent x"
  have "0 < \<lfloor>x\<rfloor>" using x1 by simp
  then have fe0: "0 \<le> fe"
    using bit_length_pos [of "\<lfloor>x\<rfloor>"] x1 by (simp add: fe_def float_exponent_def)
  have "rat_of_int \<bar>s\<bar> < rat_of_int (2 ^ p)"
    using assms(1) by (simp only: of_int_less_iff)
  then have "x < 2 powi (int p)" by (simp add: xs)
  with float_exponent_bounds(1) [OF xp] have "(2::rat) powi fe < 2 powi (int p)"
    unfolding fe_def by linarith
  then have fep: "fe < int p"
    by (rule power_int_le_imp_less_exp [rotated]) simp_all
  define d where "d = nat (int p - 1 - fe)"
  have e: "max (float_exponent \<bar>rat_of_int s\<bar>) emin = fe"
    using fe0 assms(2) by (simp add: fe_def x_def)
  have "(2::rat) powi (fe - int p + 1) * 2 powi (int d) = 2 powi (fe - int p + 1 + int d)"
    by (rule power_int_add [symmetric]) simp
  also have "fe - int p + 1 + int d = 0" using fep by (simp add: d_def)
  finally have u: "(2::rat) powi (fe - int p + 1) = 1 / 2 ^ d"
    by (simp add: field_simps)
  have ulp: "float_ulp p emin (rat_of_int s) = 1 / 2 ^ d"
    by (simp add: float_ulp_def e u)
  have "x / (1 / 2 ^ d) = rat_of_int (\<bar>s\<bar> * 2 ^ d)"
    by (simp add: xs)
  then have m: "round_half_even (\<bar>rat_of_int s\<bar> / (1 / 2 ^ d)) = \<bar>s\<bar> * 2 ^ d"
    unfolding x_def [symmetric] by (simp only: round_half_even_of_int)
  have sg: "sgn (rat_of_int s) * rat_of_int \<bar>s\<bar> = rat_of_int s"
    by (simp add: sgn_if)
  have "float_round p emin (rat_of_int s) =
          sgn (rat_of_int s) *
          rat_of_int (round_half_even (\<bar>rat_of_int s\<bar> / float_ulp p emin (rat_of_int s))) *
          float_ulp p emin (rat_of_int s)"
    using False by (simp add: float_round_def)
  also have "\<dots> = sgn (rat_of_int s) * rat_of_int (\<bar>s\<bar> * 2 ^ d) * (1 / 2 ^ d)"
    by (simp only: ulp m)
  also have "\<dots> = sgn (rat_of_int s) * rat_of_int \<bar>s\<bar>"
    by simp
  finally show ?thesis
    by (simp only: sg)
qed

lemma fl32_exact: "\<bar>s\<bar> < 2 ^ 24 \<Longrightarrow> fl32 (rat_of_int s) = rat_of_int s"
  unfolding fl32_def by (rule float_round_int_exact) simp_all

subsection \<open>Loader\<close>

text \<open>
  Claim C1. For every path that does not exist, \<open>load_audio\<close> raises
  \<open>FileNotFoundError\<close> and has handed nothing to the decoder: the missing-file
  condition comes before any decode attempt, and it is never the decode error
  (\<open>ValueError\<close>).
\<close>

theorem load_audio_missing_file:
  assumes "\<not> path_exists E file_path"
  shows "load_audio E file_path =
           ([], Inl (FileNotFoundError (''Audio file not found: '' @ file_path))) \<and>
         (\<forall>msg. snd (load_audio E file_path) \<noteq> Inl (ValueError msg))"
  using assms by (simp add: load_audio_def)

theorem load_audio_missing_file_witness:
  "\<not> path_exists example_env ''nope.mp3'' \<and>
   load_audio example_env ''nope.mp3'' =
     ([], Inl (FileNotFoundError ''Audio file not found: nope.mp3''))"
proof -
  have h: "\<not> path_exists example_env ''nope.mp3''"
    by (simp add: example_env_def)
  from load_audio_missing_file [OF h] h show ?thesis by simp
qed

text \<open>
  Claim C7. For every existing path whose decode raises an exception with message
  \<open>msg\<close>, \<open>load_audio\<close> raises \<open>ValueError\<close> with the message
  \<open>Failed to load audio file: msg\<close>, after exactly one decode attempt.
\<close>

theorem load_audio_decode_error:
  assumes "path_exists E file_path"
    and "from_file E file_path = Inl msg"
  shows "load_audio E file_path =
           ([file_path], Inl (ValueError (''Failed to load audio file: '' @ msg)))"
  using assms by (simp add: load_audio_def)

theorem load_audio_decode_error_witness:
  "path_exists example_env ''bad.mov'' \<and>
   from_file example_env ''bad.mov'' = Inl ''Decoding failed. ffmpeg returned error code: 1'' \<and>
   load_audio example_env ''bad.mov'' =
     ([''bad.mov''],
      Inl (ValueError ''Failed to load audio file: Decoding failed. ffmpeg returned error code: 1''))"
proof -
  have h1: "path_exists example_env ''bad.mov''"
    by (simp add: example_env_def)
  have h2: "from_file example_env ''bad.mov'' =
              Inl ''Decoding failed. ffmpeg returned error code: 1''"
    by (simp add: example_env_def)
  from load_audio_decode_error [OF h1 h2] h1 h2 show ?thesis by simp
qed

text \<open>
  For one or two channels the loader does what its docstring says: the segment it returns
  is mono, the buffer is that segment's samples normalized, and the rate is the decoded
  segment's frame rate. Samples of up to 24 bits are divided by \<open>2 ^ 15\<close> exactly, and
  16-bit samples land in \<open>[-1, 1)\<close>.
\<close>

lemma load_audio_mono_stereo:
  assumes "path_exists E file_path"
    and "from_file E file_path = Inr a"
    and "channels a = 1 \<or> channels a = 2"
  shows "\<exists>samples audio.
           snd (load_audio E file_path) = Inr (samples, frame_rate a, audio) \<and>
           channels audio = 1 \<and>
           samples = normalize_samples (array_of_samples audio)"
  using assms by (auto simp: load_audio_def set_channels_1_def Let_def)

lemma normalize_samples_exact:
  assumes "\<forall>s \<in> set xs. \<bar>s\<bar> < 2 ^ 24"
  shows "normalize_samples xs = map (\<lambda>s. rat_of_int s / 2 ^ 15) xs"
  using assms by (simp add: normalize_samples_def fl32_exact)

lemma normalize_samples_range:
  assumes "\<forall>s \<in> set xs. - (2 ^ 15) \<le> s \<and> s < 2 ^ 15"
  shows "\<forall>x \<in> set (normalize_samples xs). - 1 \<le> x \<and> x < 1"
proof
  fix x
  assume "x \<in> set (normalize_samples xs)"
  then obtain s where s: "s \<in> set xs" and x: "x = fl32 (rat_of_int s) / 2 ^ 15"
    by (auto simp: normalize_samples_def)
  from s assms have b: "- (2 ^ 15) \<le> s" "s < 2 ^ 15"
    by auto
  then have "\<bar>s\<bar> < 2 ^ 24" by simp
  then have x': "x = rat_of_int s / 2 ^ 15"
    by (simp add: x fl32_exact)
  from b have "rat_of_int (- (2 ^ 15)) \<le> rat_of_int s" and "rat_of_int s < rat_of_int (2 ^ 15)"
    by (simp_all only: of_int_le_iff of_int_less_iff)
  then show "- 1 \<le> x \<and> x < 1"
    by (simp add: x' field_simps)
qed

text \<open>
  Claim C5. The claim promises a mono buffer for every input that loads. Evaluated on a
  file that decodes to three channels (two frames, six interleaved samples), \<open>load_audio\<close>
  succeeds and returns all six samples, scaled by \<open>1 / 2 ^ 15\<close>, with a segment that still
  has three channels: only a two-channel segment is downmixed.
\<close>

theorem load_audio_three_channels:
  "load_audio example_env ''s.wav'' =
     ([''s.wav''],
      Inr ([100 / 32768, 200 / 32768, 300 / 32768, 400 / 32768, 500 / 32768, 600 / 32768],
           48000, surround_segment)) \<and>
   channels surround_segment = 3"
proof -
  have "normalize_samples [100, 200, 300, 400, 500, 600] =
          map (\<lambda>s. rat_of_int s / 2 ^ 15) [100, 200, 300, 400, 500, 600]"
    by (rule normalize_samples_exact) simp
  then show ?thesis
    by (simp add: load_audio_def example_env_def surround_segment_def)
qed

subsection \<open>Resampler\<close>

text \<open>
  Claim C2. For every sample buffer and every rate \<open>r\<close>, resampling from \<open>r\<close> to \<open>r\<close>
  returns the input buffer itself (same content, same length) paired with \<open>r\<close>; the
  library is not called.
\<close>

theorem resample_audio_same_rate:
  "resample_audio E samples r r = (samples, r)"
  by (simp add: resample_audio_def)

text \<open>
  When the rates differ, the buffer returned is the one \<open>librosa.resample\<close> returns for
  the same buffer and the same rates in the same order, and it is paired with the target
  rate. How long that buffer is, is decided inside the library.
\<close>

lemma resample_audio_different_rate:
  "orig_sr \<noteq> target_sr \<Longrightarrow>
   resample_audio E samples orig_sr target_sr =
     (lib_resample E samples orig_sr target_sr, target_sr)"
  by (simp add: resample_audio_def)

subsection \<open>Output file names\<close>

lemma rfind_bounds: "- 1 \<le> rfind xs c \<and> rfind xs c < int (length xs)"
  by (induction xs) (auto simp: Let_def)

lemma rfind_neg_iff: "rfind xs c < 0 \<longleftrightarrow> c \<notin> set xs"
  by (induction xs) (auto simp: Let_def)

lemma rfind_neg_eq: "\<not> 0 \<le> rfind xs c \<Longrightarrow> rfind xs c = - 1"
  using rfind_bounds [of xs c] by linarith

lemma rfind_append:
  "rfind (xs @ ys) c = (if 0 \<le> rfind ys c then int (length xs) + rfind ys c else rfind xs c)"
  by (induction xs) (auto simp: Let_def rfind_neg_eq)

lemma rfind_nth: "0 \<le> rfind xs c \<Longrightarrow> xs ! nat (rfind xs c) = c"
  by (induction xs) (auto simp: Let_def nat_add_distrib split: if_splits)

lemma rfind_drop: "c \<notin> set (drop (nat (rfind xs c + 1)) xs)"
proof (induction xs)
  case Nil
  show ?case by simp
next
  case (Cons x xs)
  show ?case
  proof (cases "0 \<le> rfind xs c")
    case True
    then have "nat (rfind xs c + 1 + 1) = Suc (nat (rfind xs c + 1))" by simp
    with True Cons show ?thesis by (simp add: Let_def)
  next
    case False
    then have "c \<notin> set xs" using rfind_neg_iff [of xs c] by simp
    with False show ?thesis by (auto simp: Let_def dest: in_set_dropD)
  qed
qed

lemma py_slice_nonneg:
  "0 \<le> a \<Longrightarrow> 0 \<le> b \<Longrightarrow> py_slice xs a b = take (nat b - nat a) (drop (nat a) xs)"
  by (auto simp: py_slice_def Let_def min_def nat_diff_distrib')

lemma basename_no_sep: "CHR ''/'' \<notin> set (basename p)"
  by (simp add: basename_def rfind_drop)

lemma rfind_snoc_same: "rfind (xs @ [c]) c = int (length xs)"
  by (simp add: rfind_append)

lemma rfind_snoc_other: "c \<noteq> x \<Longrightarrow> rfind (xs @ [x]) c = rfind xs c"
  by (simp add: rfind_append)

lemma sep_index_append:
  assumes "CHR ''/'' \<notin> set b" and "d = [] \<or> last d = CHR ''/''"
  shows "rfind (d @ b) CHR ''/'' = int (length d) - 1"
proof -
  have nb: "\<not> 0 \<le> rfind b CHR ''/''"
    using assms(1) rfind_neg_iff [of b "CHR ''/''"] by simp
  show ?thesis
  proof (cases "d = []")
    case True
    with nb show ?thesis by (simp add: rfind_neg_eq)
  next
    case False
    with assms(2) obtain d' where d: "d = d' @ [CHR ''/'']"
      by (metis append_butlast_last_id)
    with nb show ?thesis by (simp add: rfind_append)
  qed
qed

lemma dot_index_append_in:
  assumes "CHR ''.'' \<in> set b"
  shows "rfind (d @ b) CHR ''.'' = int (length d) + rfind b CHR ''.''"
  using assms rfind_neg_iff [of b "CHR ''.''"] by (simp add: rfind_append)

lemma dot_index_append_out:
  assumes "CHR ''.'' \<notin> set b" and "d = [] \<or> last d = CHR ''/''"
  shows "rfind (d @ b) CHR ''.'' \<le> int (length d) - 1"
proof -
  have nb: "\<not> 0 \<le> rfind b CHR ''.''"
    using assms(1) rfind_neg_iff [of b "CHR ''.''"] by simp
  show ?thesis
  proof (cases "d = []")
    case True
    with nb show ?thesis by (simp add: rfind_neg_eq)
  next
    case False
    with assms(2) obtain d' where d: "d = d' @ [CHR ''/'']"
      by (metis append_butlast_last_id)
    have "rfind d CHR ''.'' = rfind d' CHR ''.''"
      unfolding d by (rule rfind_snoc_other) simp
    moreover have "rfind d' CHR ''.'' < int (length d')"
      using rfind_bounds [of d' "CHR ''.''"] by simp
    ultimately show ?thesis using nb d by (simp add: rfind_append)
  qed
qed

lemma splitext_scan_append:
  "0 \<le> i \<Longrightarrow>
   splitext_scan (d @ b) (int (length d) + i) (int (length d) + j) = splitext_scan b i j"
proof (induction b i j rule: splitext_scan.induct)
  case (1 p f dI)
  have sl: "py_slice (d @ p) (int (length d) + f) (int (length d) + f + 1) = py_slice p f (f + 1)"
    using "1.prems" by (simp add: py_slice_nonneg nat_add_distrib)
  show ?case
  proof (cases "f < dI")
    case True
    show ?thesis
    proof (cases "py_slice p f (f + 1) \<noteq> ''.''")
      case True
      with \<open>f < dI\<close> sl show ?thesis
        by (subst splitext_scan.simps, subst (2) splitext_scan.simps) simp
    next
      case False
      have "splitext_scan (d @ p) (int (length d) + (f + 1)) (int (length d) + dI) =
            splitext_scan p (f + 1) dI"
        using "1.IH" [OF \<open>f < dI\<close>] False "1.prems" by simp
      with False \<open>f < dI\<close> sl show ?thesis
        by (subst splitext_scan.simps, subst (2) splitext_scan.simps) (simp add: add.assoc)
    qed
  next
    case False
    then show ?thesis
      by (subst splitext_scan.simps, subst (2) splitext_scan.simps) simp
  qed
qed

lemma splitext_append:
  assumes "CHR ''/'' \<notin> set b" and "d = [] \<or> last d = CHR ''/''"
  shows "splitext (d @ b) = (d @ fst (splitext b), snd (splitext b))"
proof -
  have sep: "rfind (d @ b) CHR ''/'' = int (length d) - 1"
    by (rule sep_index_append [OF assms])
  have sepb: "rfind b CHR ''/'' = - 1"
    using sep_index_append [of b "[]"] assms(1) by simp
  show ?thesis
  proof (cases "CHR ''.'' \<in> set b")
    case True
    have dot: "rfind (d @ b) CHR ''.'' = int (length d) + rfind b CHR ''.''"
      by (rule dot_index_append_in [OF True])
    have nn: "0 \<le> rfind b CHR ''.''"
      using True rfind_neg_iff [of b "CHR ''.''"] by simp
    have sc: "splitext_scan (d @ b) (int (length d)) (int (length d) + rfind b CHR ''.'') =
              splitext_scan b 0 (rfind b CHR ''.'')"
      using splitext_scan_append [of 0 d b "rfind b CHR ''.''"] by simp
    show ?thesis
      using nn sc by (simp add: splitext_def Let_def sep sepb dot nat_add_distrib)
  next
    case False
    have dot: "rfind (d @ b) CHR ''.'' \<le> int (length d) - 1"
      by (rule dot_index_append_out [OF False assms(2)])
    have dotb: "rfind b CHR ''.'' = - 1"
      using False rfind_neg_iff [of b "CHR ''.''"] by (simp add: rfind_neg_eq)
    show ?thesis
      using dot by (simp add: splitext_def Let_def sep sepb dotb)
  qed
qed

lemma path_decomp:
  "\<exists>d. p = d @ basename p \<and> (d = [] \<or> last d = CHR ''/'')"
proof (cases "0 \<le> rfind p CHR ''/''")
  case True
  define r where "r = nat (rfind p CHR ''/'')"
  have rl: "r < length p"
    using rfind_bounds [of p "CHR ''/''"] True by (simp add: r_def)
  have i: "nat (rfind p CHR ''/'' + 1) = Suc r"
    using True by (simp add: r_def)
  have "p ! r = CHR ''/''"
    using rfind_nth [OF True] by (simp add: r_def)
  then have "last (take (Suc r) p) = CHR ''/''"
    using rl by (simp add: take_Suc_conv_app_nth)
  moreover have "p = take (Suc r) p @ basename p"
    by (simp add: basename_def i)
  ultimately show ?thesis by blast
next
  case False
  then have "basename p = p"
    by (simp add: basename_def rfind_neg_eq)
  then show ?thesis by simp
qed

lemma splitext_join: "fst (splitext p) @ snd (splitext p) = p"
  by (simp add: splitext_def Let_def)

lemma splitext_basename: "snd (splitext (basename p)) = snd (splitext p)"
proof -
  obtain d where d: "p = d @ basename p" "d = [] \<or> last d = CHR ''/''"
    using path_decomp by blast
  have "splitext (d @ basename p) = (d @ fst (splitext (basename p)), snd (splitext (basename p)))"
    by (rule splitext_append [OF basename_no_sep d(2)])
  with d(1) show ?thesis by simp
qed

lemma stem_ext_basename: "fst (splitext (basename p)) @ snd (splitext p) = basename p"
  using splitext_join [of "basename p"] by (simp add: splitext_basename)

lemma basename_idem: "basename (basename p) = basename p"
proof -
  have "\<not> 0 \<le> rfind (basename p) CHR ''/''"
    using basename_no_sep [of p] rfind_neg_iff [of "basename p" "CHR ''/''"] by simp
  then show ?thesis
    by (subst basename_def) (simp add: rfind_neg_eq)
qed

lemma basename_append_dir:
  assumes "CHR ''/'' \<notin> set name"
  shows "basename (dir @ ''/'' @ name) = name"
proof -
  have "rfind ((dir @ ''/'') @ name) CHR ''/'' = int (length (dir @ ''/'')) - 1"
    by (rule sep_index_append [OF assms]) simp
  then have "nat (rfind (dir @ ''/'' @ name) CHR ''/'' + 1) = length (dir @ ''/'')"
    by simp
  then have "basename (dir @ ''/'' @ name) = drop (length (dir @ ''/'')) ((dir @ ''/'') @ name)"
    by (simp add: basename_def)
  then show ?thesis by simp
qed

lemma get_output_filenames_basename:
  "get_output_filenames (basename p) = get_output_filenames p"
  by (simp add: get_output_filenames_def basename_idem splitext_basename)

lemma ext_no_sep: "CHR ''/'' \<notin> set (snd (splitext p))"
proof -
  have "set (snd (splitext (basename p))) \<subseteq> set (basename p)"
    using splitext_join [of "basename p"] by (metis Un_upper2 set_append)
  then show ?thesis using basename_no_sep [of p] by (auto simp: splitext_basename)
qed

lemma stem_no_sep: "CHR ''/'' \<notin> set (fst (splitext (basename p)))"
proof -
  have "set (fst (splitext (basename p))) \<subseteq> set (basename p)"
    using splitext_join [of "basename p"] by (metis Un_upper1 set_append)
  then show ?thesis using basename_no_sep [of p] by auto
qed

text \<open>
  Claim C6. For every input path, the audio output is \<open>sample_data/v2_\<close> followed by the
  stem and the extension of the input, and the GIF output is \<open>sample_data/v2_\<close> followed
  by the stem and \<open>.gif\<close>; stem and extension together are the last component of the
  input path. For \<open>sample_data/mmmm.mov\<close> the outputs are \<open>sample_data/v2_mmmm.mov\<close> and
  \<open>sample_data/v2_mmmm.gif\<close>.
\<close>

theorem get_output_filenames_paths:
  "get_output_filenames input_path =
     (''sample_data/v2_'' @ fst (splitext (basename input_path)) @ snd (splitext input_path),
      ''sample_data/v2_'' @ fst (splitext (basename input_path)) @ ''.gif'') \<and>
   fst (splitext (basename input_path)) @ snd (splitext input_path) = basename input_path \<and>
   get_output_filenames ''sample_data/mmmm.mov'' =
     (''sample_data/v2_mmmm.mov'', ''sample_data/v2_mmmm.gif'')"
proof -
  have gen: "get_output_filenames input_path =
     (''sample_data/v2_'' @ fst (splitext (basename input_path)) @ snd (splitext input_path),
      ''sample_data/v2_'' @ fst (splitext (basename input_path)) @ ''.gif'')"
    by (simp add: get_output_filenames_def Let_def)
  have ex: "get_output_filenames ''sample_data/mmmm.mov'' =
     (''sample_data/v2_mmmm.mov'', ''sample_data/v2_mmmm.gif'')"
    by code_simp
  show ?thesis
    by (rule conjI [OF gen conjI [OF stem_ext_basename ex]])
qed

text \<open>
  Claim C10. The directory of the input is discarded: the outputs are those of the bare
  last component, both lie directly under \<open>sample_data/\<close> (nothing after the prefix
  \<open>sample_data/v2_\<close> contains a separator), and putting a file name under any directory
  does not change them.
\<close>

theorem get_output_filenames_discards_directory:
  "get_output_filenames input_path = get_output_filenames (basename input_path) \<and>
   (\<exists>a g. get_output_filenames input_path = (''sample_data/v2_'' @ a, ''sample_data/v2_'' @ g) \<and>
      CHR ''/'' \<notin> set a \<and> CHR ''/'' \<notin> set g) \<and>
   (CHR ''/'' \<notin> set name \<longrightarrow>
      get_output_filenames (dir @ ''/'' @ name) = get_output_filenames name)"
proof -
  have a: "CHR ''/'' \<notin> set (fst (splitext (basename input_path)) @ snd (splitext input_path))"
    using stem_no_sep [of input_path] ext_no_sep [of input_path] by simp
  have g: "CHR ''/'' \<notin> set (fst (splitext (basename input_path)) @ ''.gif'')"
    using stem_no_sep [of input_path] by simp
  have e: "\<exists>a g. get_output_filenames input_path = (''sample_data/v2_'' @ a, ''sample_data/v2_'' @ g) \<and>
      CHR ''/'' \<notin> set a \<and> CHR ''/'' \<notin> set g"
    unfolding get_output_filenames_def Let_def using a g by blast
  have d: "CHR ''/'' \<notin> set name \<longrightarrow>
      get_output_filenames (dir @ ''/'' @ name) = get_output_filenames name"
  proof
    assume n: "CHR ''/'' \<notin> set name"
    show "get_output_filenames (dir @ ''/'' @ name) = get_output_filenames name"
      using get_output_filenames_basename [of "dir @ ''/'' @ name"]
      unfolding basename_append_dir [OF n] by simp
  qed
  show ?thesis using e d by (simp add: get_output_filenames_basename)
qed

theorem get_output_filenames_discards_directory_witness:
  "CHR ''/'' \<notin> set ''song.wav'' \<and>
   get_output_filenames ''/home/user/music/song.wav'' =
     (''sample_data/v2_song.wav'', ''sample_data/v2_song.gif'')"
proof -
  have h: "CHR ''/'' \<notin> set ''song.wav''"
    by simp
  have v: "get_output_filenames ''song.wav'' =
             (''sample_data/v2_song.wav'', ''sample_data/v2_song.gif'')"
    by code_simp
  from get_output_filenames_discards_directory [of _ "''song.wav''" "''/home/user/music''"] h
  have "get_output_filenames (''/home/user/music'' @ ''/'' @ ''song.wav'') =
          get_output_filenames ''song.wav''"
    by blast
  with v h show ?thesis by simp
qed

subsection \<open>Writer\<close>

lemma sint16: "sint (word_of_int k :: 16 word) = (k + 2 ^ 15) mod 2 ^ 16 - 2 ^ 15"
  by (simp add: sint_sbintrunc' signed_take_bit_eq_take_bit_shift take_bit_eq_mod)

lemma py_int_trunc: "\<bar>rat_of_int (py_int x)\<bar> \<le> \<bar>x\<bar> \<and> \<bar>x\<bar> - \<bar>rat_of_int (py_int x)\<bar> < 1"
  unfolding py_int_def by (cases "0 \<le> x") (simp_all, linarith+)

lemma astype_int16_in_range:
  assumes "- (2 ^ 31) \<le> py_int x" and "py_int x < 2 ^ 31"
  shows "sint (astype_int16 x) = (py_int x + 2 ^ 15) mod 2 ^ 16 - 2 ^ 15"
  using assms by (simp add: astype_int16_def Let_def sint16)

text \<open>
  Claim C8. De-normalization multiplies by \<open>2 ^ 15\<close>, truncates towards zero and keeps
  16 bits: whenever the truncated product fits in 32 bits, the stored value is that
  product wrapped into \<open>- 2 ^ 15 .. 2 ^ 15 - 1\<close> modulo \<open>2 ^ 16\<close>. A sample of exactly \<open>1\<close>
  gives \<open>32768\<close>, which does not fit in 16 bits and is stored as \<open>- 32768\<close>: full-scale
  positive becomes full-scale negative.
\<close>

theorem samples_int16_full_scale_wraps:
  "((\<forall>s \<in> set samples. - (2 ^ 31) \<le> py_int (s * 2 ^ 15) \<and> py_int (s * 2 ^ 15) < 2 ^ 31) \<longrightarrow>
      map sint (samples_int16 samples) =
        map (\<lambda>s. (py_int (s * 2 ^ 15) + 2 ^ 15) mod 2 ^ 16 - 2 ^ 15) samples) \<and>
   (\<bar>rat_of_int (py_int x)\<bar> \<le> \<bar>x\<bar> \<and> \<bar>x\<bar> - \<bar>rat_of_int (py_int x)\<bar> < 1) \<and>
   py_int (1 * 2 ^ 15) = 32768 \<and>
   \<not> (32768 :: int) < 2 ^ 15 \<and>
   map sint (samples_int16 [1]) = [- 32768]"
proof -
  have a: "(\<forall>s \<in> set samples. - (2 ^ 31) \<le> py_int (s * 2 ^ 15) \<and> py_int (s * 2 ^ 15) < 2 ^ 31) \<longrightarrow>
      map sint (samples_int16 samples) =
        map (\<lambda>s. (py_int (s * 2 ^ 15) + 2 ^ 15) mod 2 ^ 16 - 2 ^ 15) samples"
    by (simp add: samples_int16_def astype_int16_in_range)
  have b: "py_int (1 * 2 ^ 15) = 32768"
    by (simp add: py_int_def)
  have c: "map sint (samples_int16 [1]) = [- 32768]"
    by (simp add: samples_int16_def astype_int16_def py_int_def)
  have d: "\<not> (32768 :: int) < 2 ^ 15"
    by simp
  show ?thesis
    by (rule conjI [OF a conjI [OF py_int_trunc conjI [OF b conjI [OF d c]]]])
qed

theorem samples_int16_full_scale_wraps_witness:
  "(- (2 ^ 31) \<le> py_int (1 * 2 ^ 15) \<and> py_int (1 * 2 ^ 15) < 2 ^ 31) \<and>
   (- (2 ^ 31) \<le> py_int (- (1 / 65536) * 2 ^ 15) \<and> py_int (- (1 / 65536) * 2 ^ 15) < 2 ^ 31) \<and>
   (- (2 ^ 31) \<le> py_int (3 / 2 * 2 ^ 15) \<and> py_int (3 / 2 * 2 ^ 15) < 2 ^ 31) \<and>
   map sint (samples_int16 [1, - (1 / 65536), 3 / 2]) = [- 32768, 0, - 16384]"
proof -
  have h1: "- (2 ^ 31) \<le> py_int (1 * 2 ^ 15) \<and> py_int (1 * 2 ^ 15) < 2 ^ 31"
    by (simp add: py_int_def)
  have h2: "- (2 ^ 31) \<le> py_int (- (1 / 65536) * 2 ^ 15) \<and>
            py_int (- (1 / 65536) * 2 ^ 15) < 2 ^ 31"
    by code_simp
  have h3: "- (2 ^ 31) \<le> py_int (3 / 2 * 2 ^ 15) \<and> py_int (3 / 2 * 2 ^ 15) < 2 ^ 31"
    by (simp add: py_int_def)
  from samples_int16_full_scale_wraps [of "[1, - (1 / 65536), 3 / 2]"] h1 h2 h3
  have "map sint (samples_int16 [1, - (1 / 65536), 3 / 2]) =
          map (\<lambda>s. (py_int (s * 2 ^ 15) + 2 ^ 15) mod 2 ^ 16 - 2 ^ 15) [1, - (1 / 65536), 3 / 2]"
    by simp
  also have "\<dots> = [- 32768, 0, - 16384]"
    by code_simp
  finally show ?thesis
    using h1 h2 h3 by blast
qed

subsection \<open>Visualizer\<close>

text \<open>
  The number of samples per frame agrees with the binary64 arithmetic of the script, also
  where exact arithmetic would give another integer, and the conversion of the rate to a
  float fails from \<open>2 ^ 1024 - 2 ^ 970\<close> on.
\<close>

lemma samples_per_frame_values:
  "samples_per_frame 22050 5 = Inr 1102 \<and> samples_per_frame 100 29 = Inr 28"
  by code_simp

lemma samples_per_frame_overflow:
  "samples_per_frame (2 ^ 1024 - 2 ^ 970) 5 =
     Inl (OverflowError ''int too large to convert to float'')"
  by code_simp

lemma update_clamped:
  assumes "0 \<le> spf"
  shows "update time samples spf (int f) =
           (take (min ((f + 1) * nat spf) (length samples) - f * nat spf) (drop (f * nat spf) time),
            take (min ((f + 1) * nat spf) (length samples) - f * nat spf) (drop (f * nat spf) samples))"
proof -
  obtain n where n: "spf = int n"
    using assms(1) by (metis nonneg_int_cases)
  have s: "int f * spf = int (f * n)"
    by (simp add: n)
  have "(int f + 1) * spf = int ((f + 1) * n)"
    by (simp add: n algebra_simps)
  then have e: "min ((int f + 1) * spf) (int (length samples)) =
                int (min ((f + 1) * n) (length samples))"
    by (simp only: of_nat_min)
  have sl1: "py_slice time (int a) (int b) = take (b - a) (drop a time)" for a b
    by (simp add: py_slice_nonneg)
  have sl2: "py_slice samples (int a) (int b) = take (b - a) (drop a samples)" for a b
    by (simp add: py_slice_nonneg)
  show ?thesis
    unfolding update_def Let_def s e sl1 sl2 by (simp add: n)
qed

text \<open>
  Claim C4, as stated, fails: for an empty buffer no frame is rendered at all, because
  the amplitude limits are computed first and \<open>np.min\<close> raises on an empty array.
\<close>

theorem generate_waveform_gif_empty_counterexample:
  "generate_waveform_gif [] 22050 5 =
     Inl (ValueError ''zero-size array to reduction operation minimum which has no identity'')"
  by (simp add: generate_waveform_gif_def)

text \<open>
  Claim C4, amended. For every non-empty buffer and every positive sample rate that
  Python converts to a float (every rate below \<open>2 ^ 1024 - 2 ^ 970\<close>), with the 5-second
  window, \<open>generate_waveform_gif\<close> does not raise and renders exactly 100 frames,
  whatever the length of the audio. With \<open>n = int(sample_rate * frame_duration)\<close> samples
  per frame, frame \<open>f\<close> shows the samples from index \<open>f * n\<close> up to
  \<open>min ((f + 1) * n) (len(samples))\<close>: the end is clamped to the end of the buffer, the
  time slice has the same length, no frame has more than \<open>n\<close> samples, and a frame that
  starts at or beyond the end of the buffer is empty.
\<close>

theorem generate_waveform_gif_frames:
  assumes "samples \<noteq> []" and "0 < sample_rate" and "sample_rate < 2 ^ 1024 - 2 ^ 970"
  shows "\<exists>n g. samples_per_frame sample_rate 5 = Inr n \<and> 0 \<le> n \<and>
           generate_waveform_gif samples sample_rate 5 = Inr g \<and>
           length (frames_data g) = 100 \<and>
           (\<forall>f < 100.
              snd (frames_data g ! f) =
                take (min ((f + 1) * nat n) (length samples) - f * nat n)
                  (drop (f * nat n) samples) \<and>
              length (fst (frames_data g ! f)) = length (snd (frames_data g ! f)) \<and>
              length (snd (frames_data g ! f)) \<le> nat n \<and>
              (length samples \<le> f * nat n \<longrightarrow> snd (frames_data g ! f) = []))"
proof -
  obtain n where n: "samples_per_frame sample_rate 5 = Inr n"
    using samples_per_frame_defined [OF assms(2,3)] by blast
  have nn: "0 \<le> n"
    by (rule samples_per_frame_nonneg [OF assms(2) _ n]) simp
  define time where "time = [0 ..< length samples]"
  obtain x xs where xs: "samples = x # xs"
    using assms(1) by (cases samples) auto
  define g where
    "g = \<lparr>xlim = (0, 5 :: rat),
          frames_data = map (\<lambda>frame. update time samples n (int frame)) [0 ..< 100]\<rparr>"
  have fd: "frame_duration 5 \<noteq> 0"
    by (simp add: frame_duration_5)
  have lt: "length time = length samples"
    by (simp add: time_def)
  have run: "generate_waveform_gif samples sample_rate 5 = Inr g"
    using assms(2) fd unfolding generate_waveform_gif_def g_def time_def n xs
    by (simp add: Let_def)
  have len: "length (frames_data g) = 100"
    by (simp add: g_def)
  have fr: "frames_data g ! f =
              (take (min ((f + 1) * nat n) (length samples) - f * nat n) (drop (f * nat n) time),
               take (min ((f + 1) * nat n) (length samples) - f * nat n) (drop (f * nat n) samples))"
    if "f < 100" for f
    using that by (simp add: g_def update_clamped [OF nn] del: upt_Suc)
  have "\<forall>f < 100.
          snd (frames_data g ! f) =
            take (min ((f + 1) * nat n) (length samples) - f * nat n) (drop (f * nat n) samples) \<and>
          length (fst (frames_data g ! f)) = length (snd (frames_data g ! f)) \<and>
          length (snd (frames_data g ! f)) \<le> nat n \<and>
          (length samples \<le> f * nat n \<longrightarrow> snd (frames_data g ! f) = [])"
    by (auto simp: fr lt)
  with n nn run len show ?thesis
    by blast
qed

theorem generate_waveform_gif_frames_witness:
  "[1 / 2, - (1 / 2), 1 / 4] \<noteq> ([] :: rat list) \<and> (0 :: int) < 40 \<and>
   (40 :: int) < 2 ^ 1024 - 2 ^ 970 \<and>
   samples_per_frame 40 5 = Inr 2 \<and>
   (\<exists>g. generate_waveform_gif [1 / 2, - (1 / 2), 1 / 4] 40 5 = Inr g \<and>
        length (frames_data g) = 100 \<and>
        snd (frames_data g ! 0) = [1 / 2, - (1 / 2)] \<and>
        snd (frames_data g ! 1) = [1 / 4] \<and>
        snd (frames_data g ! 99) = [])"
proof -
  have h1: "[1 / 2, - (1 / 2), 1 / 4] \<noteq> ([] :: rat list)"
    by simp
  have h2: "(0 :: int) < 40" and h3: "(40 :: int) < 2 ^ 1024 - 2 ^ 970"
    by simp_all
  have spf: "samples_per_frame 40 5 = Inr 2"
    by code_simp
  from generate_waveform_gif_frames [OF h1 h2 h3] obtain n g where
    n: "samples_per_frame 40 5 = Inr n"
    and g: "generate_waveform_gif [1 / 2, - (1 / 2), 1 / 4] 40 5 = Inr g"
      "length (frames_data g) = 100"
    and fr: "\<And>f. f < 100 \<Longrightarrow>
      snd (frames_data g ! f) =
        take (min ((f + 1) * nat n) (length [1 / 2, - (1 / 2), 1 / 4 :: rat]) - f * nat n)
          (drop (f * nat n) [1 / 2, - (1 / 2), 1 / 4])"
    by blast
  have n2: "nat n = 2"
    using n spf by simp
  have "snd (frames_data g ! 0) = [1 / 2, - (1 / 2)]"
    using fr [of 0] by (simp add: n2)
  moreover have "snd (frames_data g ! 1) = [1 / 4]"
    using fr [of 1] by (simp add: n2)
  moreover have "snd (frames_data g ! 99) = []"
    using fr [of 99] by (simp add: n2)
  ultimately show ?thesis
    using g h1 h3 spf by auto
qed

text \<open>
  Claim C9. For every empty buffer \<open>generate_waveform_gif\<close> raises and produces no
  animation, whatever the rate and the duration: \<open>np.min\<close> of the empty array raises
  \<open>ValueError\<close> before the animation is built (with a rate of zero, the division that
  computes the time axis has raised already).
\<close>

theorem generate_waveform_gif_empty:
  "generate_waveform_gif [] sample_rate duration =
     Inl (if sample_rate = 0 then ZeroDivisionError ''division by zero''
          else ValueError
                 ''zero-size array to reduction operation minimum which has no identity'') \<and>
   (\<forall>g. generate_waveform_gif [] sample_rate duration \<noteq> Inr g)"
  by (simp add: generate_waveform_gif_def)

end
